theory Spec2Isabelle
  imports Main
begin

section \<open>Slash-separated paths (Go's package \<open>path\<close>)\<close>

text \<open>
  The scanner calls \<open>path.Clean\<close>, \<open>path.Dir\<close>, \<open>path.Base\<close> and \<open>path.Join\<close> of
  Go's standard library. They are modelled here on the elements of a path: \<open>Clean\<close> drops
  empty and \<open>.\<close> elements, lets \<open>..\<close> remove the element before it, drops \<open>..\<close> at the
  start of a rooted path and turns the empty result into \<open>.\<close>.
\<close>

fun split_slash :: "string \<Rightarrow> string list" where
  "split_slash [] = [] # []"
| "split_slash (c # cs) =
     (if c = CHR ''/'' then [] # split_slash cs
      else (case split_slash cs of [] \<Rightarrow> [c] # [] | e # es \<Rightarrow> (c # e) # es))"

fun join_slash :: "string list \<Rightarrow> string" where
  "join_slash [] = []"
| "join_slash [e] = e"
| "join_slash (e # es) = e @ ''/'' @ join_slash es"

fun clean_elems :: "bool \<Rightarrow> string list \<Rightarrow> string list \<Rightarrow> string list" where
  "clean_elems rooted [] out = out"
| "clean_elems rooted (e # es) out =
     (if e = [] \<or> e = ''.'' then clean_elems rooted es out
      else if e = ''..'' then
        (if out \<noteq> [] \<and> last out \<noteq> ''..'' then clean_elems rooted es (butlast out)
         else if \<not> rooted then clean_elems rooted es (out @ [''..''])
         else clean_elems rooted es out)
      else clean_elems rooted es (out @ [e]))"

definition path_Clean :: "string \<Rightarrow> string" where
  "path_Clean p =
     (if p = [] then ''.''
      else let rooted = (hd p = CHR ''/'');
               out = clean_elems rooted (split_slash p) []
           in if rooted then ''/'' @ join_slash out
              else if out = [] then ''.'' else join_slash out)"

definition path_Split_dir :: "string \<Rightarrow> string" where
  "path_Split_dir p = rev (dropWhile (\<lambda>c. c \<noteq> CHR ''/'') (rev p))"

definition path_Dir :: "string \<Rightarrow> string" where
  "path_Dir p = path_Clean (path_Split_dir p)"

definition path_Base :: "string \<Rightarrow> string" where
  "path_Base p =
     (if p = [] then ''.''
      else let stripped = rev (dropWhile (\<lambda>c. c = CHR ''/'') (rev p));
               elem = rev (takeWhile (\<lambda>c. c \<noteq> CHR ''/'') (rev stripped))
           in if elem = [] then ''/'' else elem)"

definition path_Join :: "string \<Rightarrow> string \<Rightarrow> string" where
  "path_Join a b =
     (if a = [] \<and> b = [] then []
      else if a = [] then path_Clean b
      else path_Clean (a @ ''/'' @ b))"

section \<open>The scanner cache\<close>

text \<open>
  \<open>scanner_cache\<close> is a Go \<open>map[string]interface{}\<close>: one map holding content types
  (strings) under the keys \<open>photo_type//path\<close> and containment verdicts (booleans) under
  the keys \<open>album_path//path\<close>. A read asserts the type of the stored value and reports
  a miss when the key is absent or holds a value of the other type.
\<close>

datatype cache_value = VString string | VBool bool

type_synonym scanner_cache = "string \<rightharpoonup> cache_value"

definition insert_photo_type :: "scanner_cache \<Rightarrow> string \<Rightarrow> string \<Rightarrow> scanner_cache" where
  "insert_photo_type cache p content_type = cache(''photo_type//'' @ p \<mapsto> VString content_type)"

definition get_photo_type :: "scanner_cache \<Rightarrow> string \<Rightarrow> string option" where
  "get_photo_type cache p =
     (case cache (''photo_type//'' @ p) of
        Some (VString result) \<Rightarrow> Some result
      | _ \<Rightarrow> None)"

definition insert_album_path :: "scanner_cache \<Rightarrow> string \<Rightarrow> bool \<Rightarrow> scanner_cache" where
  "insert_album_path cache p contains_photo = cache(''album_path//'' @ p \<mapsto> VBool contains_photo)"

definition album_contains_photo :: "scanner_cache \<Rightarrow> string \<Rightarrow> bool option" where
  "album_contains_photo cache p =
     (case cache (''album_path//'' @ p) of
        Some (VBool contains_photo) \<Rightarrow> Some contains_photo
      | _ \<Rightarrow> None)"

text \<open>
  The loop of \<open>insert_album_paths\<close> runs while \<open>curr_path != root_path || curr_path == "."\<close>.
  Nothing bounds it, so it is a partial function: \<open>None\<close> is a loop that never ends.
\<close>

partial_function (option) insert_album_paths_loop ::
    "scanner_cache \<Rightarrow> string \<Rightarrow> string \<Rightarrow> bool \<Rightarrow> scanner_cache option" where
  "insert_album_paths_loop cache curr_path root_path contains_photo =
     (if curr_path \<noteq> root_path \<or> curr_path = ''.''
      then insert_album_paths_loop (insert_album_path cache curr_path contains_photo)
             (path_Dir curr_path) root_path contains_photo
      else Some cache)"

definition insert_album_paths ::
    "scanner_cache \<Rightarrow> string \<Rightarrow> string \<Rightarrow> bool \<Rightarrow> scanner_cache option" where
  "insert_album_paths cache end_path root contains_photo =
     insert_album_paths_loop cache (path_Clean end_path) (path_Clean root) contains_photo"

section \<open>The file system and the classification of files\<close>

text \<open>
  The scan reads the file system through \<open>ioutil.ReadDir\<close> (the entries of a directory,
  or an error) and through \<open>os.Open\<close>, \<open>file.Read\<close> and \<open>filetype.Image\<close> on the first
  261 bytes of a file. \<open>sniff\<close> is the outcome of these three calls for a path.
\<close>

record file_info =
  Name :: string
  IsDir :: bool

datatype sniff_result = OpenError | ReadError | UnknownType | ImageType string

record filesystem =
  ReadDir :: "string \<Rightarrow> file_info list option"
  sniff :: "string \<Rightarrow> sniff_result"

definition SupportedMimetypes :: "string list" where
  "SupportedMimetypes =
     [''image/jpeg'', ''image/png'', ''image/tiff'', ''image/webp'',
      ''image/x-canon-cr2'', ''image/bmp'']"

definition WebMimetypes :: "string list" where
  "WebMimetypes = [''image/jpeg'', ''image/png'', ''image/webp'', ''image/bmp'']"

fun match_supported :: "string list \<Rightarrow> string \<Rightarrow> string \<Rightarrow> scanner_cache \<Rightarrow> bool \<times> scanner_cache" where
  "match_supported [] mime p cache = (False, cache)"
| "match_supported (supported_mime # rest) mime p cache =
     (if supported_mime = mime then (True, insert_photo_type cache p supported_mime)
      else match_supported rest mime p cache)"

definition isPathImage :: "filesystem \<Rightarrow> string \<Rightarrow> scanner_cache \<Rightarrow> bool \<times> scanner_cache" where
  "isPathImage fs p cache =
     (if get_photo_type cache p \<noteq> None then (True, cache)
      else case sniff fs p of
             OpenError \<Rightarrow> (False, cache)
           | ReadError \<Rightarrow> (False, cache)
           | UnknownType \<Rightarrow> (False, cache)
           | ImageType mime \<Rightarrow> match_supported SupportedMimetypes mime p cache)"

section \<open>The containment probe\<close>

text \<open>
  \<open>directoryContainsPhotos\<close> searches breadth-first from \<open>rootPath\<close>. Its loop leaves in
  three ways: a file classified as an image in \<open>dirPath\<close> (the source then calls
  \<open>insert_album_paths\<close> and returns true), a failed listing (returns false), and the
  empty queue (marks every scanned directory false and returns false). The search
  returns the way it left, the cache and \<open>scanned_directories\<close>; the function acts on it.
  The directory tree is not bounded, so the search is a partial function.
\<close>

datatype probe_exit = FoundImage string | ListingFailed string | QueueEmpty

datatype entries_result = ImageFound scanner_cache | Enqueued scanner_cache "string list"

fun probe_entries ::
    "filesystem \<Rightarrow> string \<Rightarrow> file_info list \<Rightarrow> scanner_cache \<Rightarrow> string list \<Rightarrow> entries_result" where
  "probe_entries fs dirPath [] cache scanQueue = Enqueued cache scanQueue"
| "probe_entries fs dirPath (fileInfo # rest) cache scanQueue =
     (let filePath = path_Join dirPath (Name fileInfo) in
      if IsDir fileInfo then probe_entries fs dirPath rest cache (scanQueue @ [filePath])
      else (case isPathImage fs filePath cache of
              (True, cache') \<Rightarrow> ImageFound cache'
            | (False, cache') \<Rightarrow> probe_entries fs dirPath rest cache' scanQueue))"

partial_function (option) probe_search ::
    "filesystem \<Rightarrow> scanner_cache \<Rightarrow> string list \<Rightarrow> string list
       \<Rightarrow> (probe_exit \<times> scanner_cache \<times> string list) option" where
  "probe_search fs cache scanQueue scanned_directories =
     (case scanQueue of
        [] \<Rightarrow> Some (QueueEmpty, cache, scanned_directories)
      | dirPath # queue_rest \<Rightarrow>
          (case ReadDir fs dirPath of
             None \<Rightarrow> Some (ListingFailed dirPath, cache, scanned_directories @ [dirPath])
           | Some dirContent \<Rightarrow>
               (case probe_entries fs dirPath dirContent cache queue_rest of
                  ImageFound cache' \<Rightarrow>
                    Some (FoundImage dirPath, cache', scanned_directories @ [dirPath])
                | Enqueued cache' scanQueue' \<Rightarrow>
                    probe_search fs cache' scanQueue' (scanned_directories @ [dirPath]))))"

definition mark_scanned :: "scanner_cache \<Rightarrow> string list \<Rightarrow> scanner_cache" where
  "mark_scanned cache scanned_directories =
     fold (\<lambda>scanned_path c. insert_album_path c scanned_path False) scanned_directories cache"

definition directoryContainsPhotos ::
    "filesystem \<Rightarrow> string \<Rightarrow> scanner_cache \<Rightarrow> (bool \<times> scanner_cache) option" where
  "directoryContainsPhotos fs rootPath cache =
     (case album_contains_photo cache rootPath of
        Some contains_image \<Rightarrow> Some (contains_image, cache)
      | None \<Rightarrow>
          (case probe_search fs cache [rootPath] [] of
             None \<Rightarrow> None
           | Some (FoundImage dirPath, cache', scanned) \<Rightarrow>
               (case insert_album_paths cache' dirPath rootPath True of
                  None \<Rightarrow> None
                | Some cache'' \<Rightarrow> Some (True, cache''))
           | Some (ListingFailed dirPath, cache', scanned) \<Rightarrow> Some (False, cache')
           | Some (QueueEmpty, cache', scanned) \<Rightarrow> Some (False, mark_scanned cache' scanned)))"

text \<open>
  The paths \<open>p\<close>, \<open>Dir p\<close>, \<open>Dir (Dir p)\<close>, ... that the loop of \<open>insert_album_paths\<close>
  walks through, and the insertion of one verdict for each path of a list.
\<close>

fun ancestors :: "nat \<Rightarrow> string \<Rightarrow> string list" where
  "ancestors 0 p = []"
| "ancestors (Suc n) p = p # ancestors n (path_Dir p)"

definition insert_each :: "scanner_cache \<Rightarrow> string list \<Rightarrow> bool \<Rightarrow> scanner_cache" where
  "insert_each cache ps contains_photo = fold (\<lambda>p c. insert_album_path c p contains_photo) ps cache"

definition probe_verdicts ::
    "filesystem \<Rightarrow> string \<Rightarrow> scanner_cache \<Rightarrow> string list \<Rightarrow> (bool \<times> bool option list) option" where
  "probe_verdicts fs rootPath cache ps =
     map_option (\<lambda>(found, cache'). (found, map (album_contains_photo cache') ps))
       (directoryContainsPhotos fs rootPath cache)"

text \<open>
  A small tree for the examples: \<open>/R\<close> holds one image, at \<open>/R/x/y/z/img.jpg\<close>; \<open>/E\<close>
  holds a PDF file and an empty directory; the directory \<open>/F/b\<close> cannot be listed.
\<close>

definition example_fs :: filesystem where
  "example_fs =
     \<lparr>ReadDir = (\<lambda>p.
        if p = ''/R'' then Some [\<lparr>Name = ''x'', IsDir = True\<rparr>]
        else if p = ''/R/x'' then
          Some [\<lparr>Name = ''notes.txt'', IsDir = False\<rparr>, \<lparr>Name = ''y'', IsDir = True\<rparr>,
                \<lparr>Name = ''y2'', IsDir = True\<rparr>]
        else if p = ''/R/x/y'' then Some [\<lparr>Name = ''z'', IsDir = True\<rparr>]
        else if p = ''/R/x/y2'' then Some [\<lparr>Name = ''deep'', IsDir = True\<rparr>]
        else if p = ''/R/x/y/z'' then Some [\<lparr>Name = ''img.jpg'', IsDir = False\<rparr>]
        else if p = ''/R/x/y2/deep'' then Some []
        else if p = ''/E'' then
          Some [\<lparr>Name = ''a'', IsDir = True\<rparr>, \<lparr>Name = ''readme.pdf'', IsDir = False\<rparr>]
        else if p = ''/E/a'' then Some []
        else if p = ''/F'' then Some [\<lparr>Name = ''b'', IsDir = True\<rparr>]
        else None),
      sniff = (\<lambda>p.
        if p = ''/R/x/y/z/img.jpg'' then ImageType ''image/jpeg''
        else if p = ''/E/readme.pdf'' then ImageType ''application/pdf''
        else if p = ''/R/x/notes.txt'' then UnknownType
        else OpenError)\<rparr>"

definition probe_outcome ::
    "filesystem \<Rightarrow> string \<Rightarrow> scanner_cache \<Rightarrow> (probe_exit \<times> string list) option" where
  "probe_outcome fs rootPath cache =
     map_option (\<lambda>(left, cache', scanned). (left, scanned)) (probe_search fs cache [rootPath] [])"

declare insert_album_paths_loop.simps [code]

declare probe_search.simps [code]

section \<open>The database and the collaborators of the scan\<close>

text \<open>
  The rows of the \<open>album\<close> table, with the columns that the statements of the scanner
  name, the user record, and the database: the album table, the identifier the next
  inserted album gets, and the tables written by the photo-processing collaborator (a
  parameter \<open>'p\<close>).
\<close>

record album =
  album_id :: int
  title :: string
  parent_album :: "int option"
  owner_id :: int
  path :: string

record user =
  UserID :: int
  Username :: string
  RootPath :: string

record 'p database =
  album_table :: "album list"
  next_album_id :: int
  photo_tables :: 'p

text \<open>
  What the scan calls outside the source file: \<open>ProcessImage\<close> (given the open
  transaction, it returns the transaction's new state, or \<open>None\<close> for an error), the
  database calls that can return an error (\<open>Begin\<close>, \<open>Exec\<close>, \<open>QueryRow\<close>, \<open>Query\<close>,
  \<open>Commit\<close>), and \<open>os.RemoveAll\<close>. \<open>db_error\<close> tells for each database call of a
  scan, named by its kind and the path it is made for, whether it returns an error;
  \<open>RemoveAll_error\<close> tells it for the removal of a folder. A transaction works on a
  copy of the database that replaces it at \<open>Commit\<close> and is dropped at \<open>Rollback\<close>.
\<close>

datatype db_call =
    Begin_album string | Insert_album string | Select_album string | Commit_album string
  | Begin_photo string | Commit_photo string | Select_unused | Delete_unused

record 'p collaborators =
  ProcessImage :: "'p database \<Rightarrow> string \<Rightarrow> int \<Rightarrow> string \<Rightarrow> 'p database option"
  db_error :: "db_call \<Rightarrow> bool"
  RemoveAll_error :: "string \<Rightarrow> bool"

text \<open>
  Modelled from the spec: the schema of the \<open>album\<close> table is not in the source. The
  spec gives an album an identifier assigned by the store on first insert and a path
  that is unique per owner, so \<open>INSERT IGNORE\<close> skips a row whose \<open>(owner_id, path)\<close> is
  already in the table and appends any other row under the next free identifier.
\<close>

definition insert_ignore_album ::
    "'p database \<Rightarrow> string \<Rightarrow> int option \<Rightarrow> int \<Rightarrow> string \<Rightarrow> 'p database" where
  "insert_ignore_album db albumTitle albumParentId userId albumPath =
     (if \<exists>a \<in> set (album_table db). owner_id a = userId \<and> path a = albumPath then db
      else db\<lparr>album_table := album_table db @
                  [\<lparr>album_id = next_album_id db, title = albumTitle,
                    parent_album = albumParentId, owner_id = userId, path = albumPath\<rparr>],
              next_album_id := next_album_id db + 1\<rparr>)"

text \<open>\<open>SELECT album_id FROM album WHERE path = ?\<close>, read with \<open>QueryRow\<close>: the first row.\<close>

definition select_album_id :: "'p database \<Rightarrow> string \<Rightarrow> int option" where
  "select_album_id db albumPath =
     (case filter (\<lambda>a. path a = albumPath) (album_table db) of
        [] \<Rightarrow> None
      | a # _ \<Rightarrow> Some (album_id a))"

section \<open>The scan of a user's directories\<close>

datatype scan_error =
    ReadDirError | BeginError | InsertError | AlbumIdError | CommitError
  | PhotoBeginError | ContentTypeMissing | ProcessError

record scanInfo =
  info_path :: string
  parentId :: "int option"

text \<open>
  The variables of \<open>scan\<close>: the database, the cache, \<open>album_paths_scanned\<close>, and a record
  of the calls of \<open>ProcessImage\<close> with their arguments (the transaction, the path of the
  photo, the album and the content type), in the order they were made.
\<close>

record 'p scan_state =
  st_database :: "'p database"
  st_cache :: scanner_cache
  album_paths_scanned :: "string list"
  process_calls :: "('p database \<times> string \<times> int \<times> string) list"

text \<open>Lines 109 to 138: the transaction that makes the album and reads its identifier.\<close>

definition album_transaction ::
    "'p collaborators \<Rightarrow> 'p database \<Rightarrow> user \<Rightarrow> string \<Rightarrow> int option
       \<Rightarrow> scan_error + ('p database \<times> int)" where
  "album_transaction env db usr albumPath albumParentId =
     (if db_error env (Begin_album albumPath) then Inl BeginError
      else if db_error env (Insert_album albumPath) then Inl InsertError
      else let tx = insert_ignore_album db (path_Base albumPath) albumParentId (UserID usr) albumPath
           in case (if db_error env (Select_album albumPath) then None
                    else select_album_id tx albumPath) of
                None \<Rightarrow> Inl AlbumIdError
              | Some albumId \<Rightarrow>
                  if db_error env (Commit_album albumPath) then Inl CommitError
                  else Inr (tx, albumId))"

text \<open>Lines 141 to 165: the files of the directory, one transaction for each image.\<close>

fun scan_photos ::
    "'p collaborators \<Rightarrow> filesystem \<Rightarrow> string \<Rightarrow> int \<Rightarrow> file_info list \<Rightarrow> 'p scan_state
       \<Rightarrow> scan_error option \<times> 'p scan_state" where
  "scan_photos env fs albumPath albumId [] st = (None, st)"
| "scan_photos env fs albumPath albumId (item # rest) st =
     (let photoPath = path_Join albumPath (Name item) in
      if IsDir item then scan_photos env fs albumPath albumId rest st
      else (case isPathImage fs photoPath (st_cache st) of
              (False, cache') \<Rightarrow> scan_photos env fs albumPath albumId rest (st\<lparr>st_cache := cache'\<rparr>)
            | (True, cache') \<Rightarrow>
                if db_error env (Begin_photo photoPath) then (Some PhotoBeginError, st\<lparr>st_cache := cache'\<rparr>)
                else (case get_photo_type cache' photoPath of
                        None \<Rightarrow> (Some ContentTypeMissing, st\<lparr>st_cache := cache'\<rparr>)
                      | Some content_type \<Rightarrow>
                          (let tx = st_database st;
                               st' = st\<lparr>st_cache := cache',
                                        process_calls := process_calls st @
                                          [(tx, photoPath, albumId, content_type)]\<rparr>
                           in case ProcessImage env tx photoPath albumId content_type of
                                None \<Rightarrow> (Some ProcessError, st')
                              | Some tx' \<Rightarrow>
                                  scan_photos env fs albumPath albumId rest
                                    (if db_error env (Commit_photo photoPath) then st'
                                     else st'\<lparr>st_database := tx'\<rparr>)))))"

text \<open>Lines 168 to 177: the sub-directories that a probe finds to contain photos.\<close>

fun scan_subalbums ::
    "filesystem \<Rightarrow> string \<Rightarrow> int \<Rightarrow> file_info list \<Rightarrow> scanner_cache \<Rightarrow> scanInfo list
       \<Rightarrow> (scanner_cache \<times> scanInfo list) option" where
  "scan_subalbums fs albumPath albumId [] cache scanQueue = Some (cache, scanQueue)"
| "scan_subalbums fs albumPath albumId (item # rest) cache scanQueue =
     (let subalbumPath = path_Join albumPath (Name item) in
      if IsDir item then
        (case directoryContainsPhotos fs subalbumPath cache of
           None \<Rightarrow> None
         | Some (True, cache') \<Rightarrow>
             scan_subalbums fs albumPath albumId rest cache'
               (scanQueue @ [\<lparr>info_path = subalbumPath, parentId = Some albumId\<rparr>])
         | Some (False, cache') \<Rightarrow> scan_subalbums fs albumPath albumId rest cache' scanQueue)
      else scan_subalbums fs albumPath albumId rest cache scanQueue)"

text \<open>
  Lines 93 to 178: the loop over the queue of directories. It returns \<open>Some e\<close> with the
  state where one of its \<open>return\<close> statements leaves the scan, and \<open>None\<close> with the state
  when the queue is empty.
\<close>

partial_function (option) scan_loop ::
    "'p collaborators \<Rightarrow> filesystem \<Rightarrow> user \<Rightarrow> scanInfo list \<Rightarrow> 'p scan_state
       \<Rightarrow> (scan_error option \<times> 'p scan_state) option" where
  "scan_loop env fs usr scanQueue st =
     (case scanQueue of
        [] \<Rightarrow> Some (None, st)
      | albumInfo # queue_rest \<Rightarrow>
          (let albumPath = info_path albumInfo;
               albumParentId = parentId albumInfo;
               st1 = st\<lparr>album_paths_scanned := album_paths_scanned st @ [albumPath]\<rparr>
           in case ReadDir fs albumPath of
                None \<Rightarrow> Some (Some ReadDirError, st1)
              | Some dirContent \<Rightarrow>
                  (case album_transaction env (st_database st1) usr albumPath albumParentId of
                     Inl e \<Rightarrow> Some (Some e, st1)
                   | Inr (db', albumId) \<Rightarrow>
                       (case scan_photos env fs albumPath albumId dirContent
                               (st1\<lparr>st_database := db'\<rparr>) of
                          (Some e, st2) \<Rightarrow> Some (Some e, st2)
                        | (None, st2) \<Rightarrow>
                            (case scan_subalbums fs albumPath albumId dirContent
                                    (st_cache st2) queue_rest of
                               None \<Rightarrow> None
                             | Some (cache', scanQueue') \<Rightarrow>
                                 scan_loop env fs usr scanQueue' (st2\<lparr>st_cache := cache'\<rparr>))))))"

declare scan_loop.simps [code]

section \<open>The removal of unused albums\<close>

fun digits :: "nat \<Rightarrow> string" where
  "digits n = (if n < 10 then [''0123456789'' ! n] else digits (n div 10) @ [''0123456789'' ! (n mod 10)])"

definition Itoa :: "int \<Rightarrow> string" where
  "Itoa i = (if i < 0 then CHR ''-'' # digits (nat (- i)) else digits (nat i))"

record 'p cleanup_result =
  cleaned_database :: "'p database"
  removed_folders :: "string list"
  deleted_albums :: nat

text \<open>
  Lines 296 to 307: for each selected identifier, \<open>os.RemoveAll\<close> on its cache folder;
  an error is logged, a success is counted.
\<close>

fun remove_cache_folders :: "'p collaborators \<Rightarrow> int list \<Rightarrow> string list \<times> nat" where
  "remove_cache_folders env [] = ([], 0)"
| "remove_cache_folders env (deleted_id # ids) =
     (let cache_path = path_Join ''./image-cache'' (Itoa deleted_id);
          (folders, deleted) = remove_cache_folders env ids
      in (cache_path # folders,
          if RemoveAll_error env cache_path then deleted else deleted + 1))"

definition cleanupCache ::
    "'p collaborators \<Rightarrow> 'p database \<Rightarrow> string list \<Rightarrow> user \<Rightarrow> 'p cleanup_result" where
  "cleanupCache env db scanned_albums usr =
     (if length scanned_albums = 0
      then \<lparr>cleaned_database = db, removed_folders = [], deleted_albums = 0\<rparr>
      else if db_error env Select_unused
      then \<lparr>cleaned_database = db, removed_folders = [], deleted_albums = 0\<rparr>
      else let deleted_ids =
                 map album_id
                   (filter (\<lambda>a. owner_id a = UserID usr \<and> path a \<notin> set scanned_albums)
                      (album_table db));
               (folders, deleted) = remove_cache_folders env deleted_ids;
               db' = (if length deleted_ids > 0 \<and> \<not> db_error env Delete_unused
                      then db\<lparr>album_table :=
                                filter (\<lambda>a. album_id a \<notin> set deleted_ids) (album_table db)\<rparr>
                      else db)
           in \<lparr>cleaned_database = db', removed_folders = folders, deleted_albums = deleted\<rparr>)"

text \<open>
  \<open>scan\<close>: the loop from the user's root path with an empty cache, then \<open>cleanupCache\<close>
  when the loop ends with the queue empty. The result tells how the loop was left, the
  state after it, and what \<open>cleanupCache\<close> did if it was called.
\<close>

record 'p scan_result =
  scan_failure :: "scan_error option"
  final_state :: "'p scan_state"
  cleanup :: "'p cleanup_result option"

definition scan :: "'p collaborators \<Rightarrow> filesystem \<Rightarrow> 'p database \<Rightarrow> user \<Rightarrow> 'p scan_result option" where
  "scan env fs db usr =
     (case scan_loop env fs usr [\<lparr>info_path = RootPath usr, parentId = None\<rparr>]
             \<lparr>st_database = db, st_cache = Map.empty, album_paths_scanned = [],
              process_calls = []\<rparr> of
        None \<Rightarrow> None
      | Some (Some e, st) \<Rightarrow> Some \<lparr>scan_failure = Some e, final_state = st, cleanup = None\<rparr>
      | Some (None, st) \<Rightarrow>
          Some \<lparr>scan_failure = None, final_state = st,
                cleanup = Some (cleanupCache env (st_database st) (album_paths_scanned st) usr)\<rparr>)"

section \<open>Predicates and examples for the statements\<close>




text \<open>
  A second tree: \<open>/photos\<close> holds a JPEG, a PDF, the directory \<open>trip\<close> with a PNG and an
  empty directory. The example collaborator appends a row for each photo it is given
  and fails on the path \<open>fail_path\<close>; no database call fails; no cache folder can be
  removed.
\<close>

definition photos_fs :: filesystem where
  "photos_fs =
     \<lparr>ReadDir = (\<lambda>p.
        if p = ''/photos'' then
          Some [\<lparr>Name = ''a.jpg'', IsDir = False\<rparr>, \<lparr>Name = ''doc.pdf'', IsDir = False\<rparr>,
                \<lparr>Name = ''empty'', IsDir = True\<rparr>, \<lparr>Name = ''trip'', IsDir = True\<rparr>]
        else if p = ''/photos/trip'' then Some [\<lparr>Name = ''b.png'', IsDir = False\<rparr>]
        else if p = ''/photos/empty'' then Some []
        else None),
      sniff = (\<lambda>p.
        if p = ''/photos/a.jpg'' then ImageType ''image/jpeg''
        else if p = ''/photos/doc.pdf'' then ImageType ''application/pdf''
        else if p = ''/photos/trip/b.png'' then ImageType ''image/png''
        else OpenError)\<rparr>"

definition example_env :: "string \<Rightarrow> (string \<times> int \<times> string) list collaborators" where
  "example_env fail_path =
     \<lparr>ProcessImage = (\<lambda>tx p a ct.
        if p = fail_path then None
        else Some (tx\<lparr>photo_tables := photo_tables tx @ [(p, a, ct)]\<rparr>)),
      db_error = (\<lambda>c. False),
      RemoveAll_error = (\<lambda>p. True)\<rparr>"

definition empty_db :: "(string \<times> int \<times> string) list database" where
  "empty_db = \<lparr>album_table = [], next_album_id = 1, photo_tables = []\<rparr>"

definition alice :: user where
  "alice = \<lparr>UserID = 1, Username = ''alice'', RootPath = ''/photos''\<rparr>"

definition bob :: user where
  "bob = \<lparr>UserID = 2, Username = ''bob'', RootPath = ''/photos''\<rparr>"

text \<open>The database after a scan of \<open>/photos\<close> for alice: her albums 1 and 2.\<close>

definition alice_db :: "(string \<times> int \<times> string) list database" where
  "alice_db =
     \<lparr>album_table =
        [\<lparr>album_id = 1, title = ''photos'', parent_album = None, owner_id = 1, path = ''/photos''\<rparr>,
         \<lparr>album_id = 2, title = ''trip'', parent_album = Some 1, owner_id = 1,
          path = ''/photos/trip''\<rparr>],
      next_album_id = 3,
      photo_tables = [(''/photos/a.jpg'', 1, ''image/jpeg''), (''/photos/trip/b.png'', 2, ''image/png'')]\<rparr>"

text \<open>
  A database that holds, for each of the two users, an album of a directory
  \<open>/photos/old\<close> that is no longer in the tree.
\<close>

definition old_db :: "(string \<times> int \<times> string) list database" where
  "old_db =
     \<lparr>album_table =
        [\<lparr>album_id = 1, title = ''old'', parent_album = None, owner_id = 1, path = ''/photos/old''\<rparr>,
         \<lparr>album_id = 2, title = ''old'', parent_album = None, owner_id = 2, path = ''/photos/old''\<rparr>],
      next_album_id = 3,
      photo_tables = []\<rparr>"


text \<open>A summary of a scan's result that holds no function: for the examples.\<close>

definition scan_summary ::
    "'p scan_result option
       \<Rightarrow> (scan_error option \<times> string list \<times> (string \<times> int \<times> string) list
            \<times> (int \<times> int \<times> string) list \<times> 'p \<times> bool) option" where
  "scan_summary result =
     map_option (\<lambda>r.
        (scan_failure r,
         album_paths_scanned (final_state r),
         map snd (process_calls (final_state r)),
         map (\<lambda>a. (album_id a, owner_id a, path a)) (album_table (st_database (final_state r))),
         photo_tables (st_database (final_state r)),
         cleanup r \<noteq> None)) result"



section \<open>Facts about the cache and the classification\<close>

lemma album_of_insert_photo_type:
  "album_contains_photo (insert_photo_type c p ct) q = album_contains_photo c q"
  by (simp add: album_contains_photo_def insert_photo_type_def)


lemma album_of_insert_album_path:
  "album_contains_photo (insert_album_path c p b) q = (if q = p then Some b else album_contains_photo c q)"
  by (simp add: album_contains_photo_def insert_album_path_def)

lemma photo_of_insert_photo_type:
  "get_photo_type (insert_photo_type c p ct) q = (if q = p then Some ct else get_photo_type c q)"
  by (simp add: get_photo_type_def insert_photo_type_def)

lemma match_supported_iff:
  "match_supported ss mime p c = (if mime \<in> set ss then (True, insert_photo_type c p mime) else (False, c))"
  by (induction ss) auto

lemma isPathImage_False:
  "isPathImage fs p c = (False, c') \<Longrightarrow> c' = c"
  by (auto simp: isPathImage_def match_supported_iff split: if_splits sniff_result.splits)

lemma isPathImage_True:
  "isPathImage fs p c = (True, c') \<Longrightarrow>
     (\<exists>ct. get_photo_type c' p = Some ct) \<and> (\<forall>q. album_contains_photo c' q = album_contains_photo c q)"
  by (auto simp: isPathImage_def match_supported_iff photo_of_insert_photo_type
        album_of_insert_photo_type split: if_splits sniff_result.splits)

section \<open>Facts about the containment probe\<close>

lemma probe_entries_Enqueued:
  "probe_entries fs d items c q = Enqueued c' q' \<Longrightarrow> c' = c \<and> (\<exists>new. q' = q @ new)"
proof (induction items arbitrary: c q)
  case Nil
  then show ?case by simp
next
  case (Cons a items)
  show ?case
  proof (cases "IsDir a")
    case True
    with Cons show ?thesis by (fastforce simp: Let_def)
  next
    case False
    obtain b c1 where r: "isPathImage fs (path_Join d (Name a)) c = (b, c1)" by force
    with Cons.prems False have b: "\<not> b" by (auto simp: Let_def)
    with r have "c1 = c" by (simp add: isPathImage_False)
    with Cons False r b show ?thesis by (auto simp: Let_def)
  qed
qed

lemma probe_entries_ImageFound:
  "probe_entries fs d items c q = ImageFound c' \<Longrightarrow> album_contains_photo c' p = album_contains_photo c p"
proof (induction items arbitrary: c q)
  case Nil
  then show ?case by simp
next
  case (Cons a items)
  show ?case
  proof (cases "IsDir a")
    case True
    with Cons show ?thesis by (fastforce simp: Let_def)
  next
    case False
    obtain b c1 where r: "isPathImage fs (path_Join d (Name a)) c = (b, c1)" by force
    show ?thesis
    proof (cases b)
      case True
      with Cons.prems False r have "c' = c1" by (simp add: Let_def)
      with r True show ?thesis by (simp add: isPathImage_True)
    next
      case b: False
      with r have "c1 = c" by (simp add: isPathImage_False)
      with Cons False r b show ?thesis by (auto simp: Let_def)
    qed
  qed
qed

lemma probe_search_exit_aux:
  assumes "probe_search fs c q sc = Some r"
  shows "(\<forall>p. album_contains_photo (fst (snd r)) p = album_contains_photo c p) \<and>
     (fst r = QueueEmpty \<longrightarrow> fst (snd r) = c \<and> set sc \<union> set q \<subseteq> set (snd (snd r))) \<and>
     (\<forall>d. fst r = ListingFailed d \<longrightarrow>
        fst (snd r) = c \<and> snd (snd r) \<noteq> [] \<and> last (snd (snd r)) = d \<and> ReadDir fs d = None) \<and>
     (\<forall>d. fst r = FoundImage d \<longrightarrow> snd (snd r) \<noteq> [] \<and> last (snd (snd r)) = d)"
  using assms
proof (induction fs c q sc r rule: probe_search.raw_induct[rotated 1, consumes 1])
  case (1 search fs cache scanQueue scanned r)
  show ?case
  proof (cases scanQueue)
    case Nil
    with 1(2) have "r = (QueueEmpty, cache, scanned)" by simp
    with Nil show ?thesis by simp
  next
    case (Cons dirPath rest)
    show ?thesis
    proof (cases "ReadDir fs dirPath")
      case None
      with 1(2) Cons have "r = (ListingFailed dirPath, cache, scanned @ [dirPath])" by simp
      with None show ?thesis by simp
    next
      case (Some dirContent)
      show ?thesis
      proof (cases "probe_entries fs dirPath dirContent cache rest")
        case (ImageFound c')
        with 1(2) Cons Some have r: "r = (FoundImage dirPath, c', scanned @ [dirPath])" by simp
        have "\<forall>p. album_contains_photo c' p = album_contains_photo cache p"
          using probe_entries_ImageFound[OF ImageFound] by simp
        with r show ?thesis by simp
      next
        case (Enqueued c' q')
        then have c': "c' = cache" and q': "set rest \<subseteq> set q'"
          by (auto dest: probe_entries_Enqueued)
        from 1(2) Cons Some Enqueued
        have "search fs c' q' (scanned @ [dirPath]) = Some r" by simp
        from 1(1)[OF this] have ih:
          "(\<forall>p. album_contains_photo (fst (snd r)) p = album_contains_photo c' p) \<and>
     (fst r = QueueEmpty \<longrightarrow> fst (snd r) = c' \<and> set (scanned @ [dirPath]) \<union> set q' \<subseteq> set (snd (snd r))) \<and>
     (\<forall>d. fst r = ListingFailed d \<longrightarrow>
        fst (snd r) = c' \<and> snd (snd r) \<noteq> [] \<and> last (snd (snd r)) = d \<and> ReadDir fs d = None) \<and>
     (\<forall>d. fst r = FoundImage d \<longrightarrow> snd (snd r) \<noteq> [] \<and> last (snd (snd r)) = d)" .
        have "fst r = QueueEmpty \<longrightarrow> set scanned \<union> set scanQueue \<subseteq> set (snd (snd r))"
          using ih q' Cons by auto
        with ih c' show ?thesis by simp
      qed
    qed
  qed
qed

section \<open>Facts about the ancestor-marking loop\<close>

lemma album_of_insert_each:
  "album_contains_photo (insert_each c ps b) q = (if q \<in> set ps then Some b else album_contains_photo c q)"
  unfolding insert_each_def
  by (induction ps arbitrary: c) (simp_all add: album_of_insert_album_path)


lemma mark_scanned_insert_each: "mark_scanned c ps = insert_each c ps False"
  by (simp add: mark_scanned_def insert_each_def)

lemma insert_each_Cons: "insert_each c (p # ps) b = insert_each (insert_album_path c p b) ps b"
  by (simp add: insert_each_def)

lemma insert_each_Nil: "insert_each c [] b = c"
  by (simp add: insert_each_def)

lemma set_ancestors: "set (ancestors n p) = (\<lambda>j. (path_Dir ^^ j) p) ` {..<n}"
proof (induction n arbitrary: p)
  case 0
  then show ?case by simp
next
  case (Suc n)
  have "{..<Suc n} = insert 0 (Suc ` {..<n})"
    by (auto simp: lessThan_Suc_eq_insert_0)
  then show ?case
    by (simp add: Suc image_image funpow_swap1)
qed

lemma insert_album_paths_loop_reaches:
  assumes "(path_Dir ^^ k) cur = root" and "root \<noteq> ''.''"
  shows "\<exists>n\<le>k. insert_album_paths_loop c cur root b = Some (insert_each c (ancestors n cur) b)
           \<and> (path_Dir ^^ n) cur = root \<and> root \<notin> set (ancestors n cur)"
  using assms
proof (induction k arbitrary: c cur)
  case 0
  then have "insert_album_paths_loop c cur root b = Some c"
    by (subst insert_album_paths_loop.simps) simp
  with 0 show ?case by (simp add: insert_each_Nil)
next
  case (Suc k)
  show ?case
  proof (cases "cur = root")
    case True
    with Suc.prems have "insert_album_paths_loop c cur root b = Some c"
      by (subst insert_album_paths_loop.simps) simp
    with True have "insert_album_paths_loop c cur root b = Some (insert_each c (ancestors 0 cur) b)
           \<and> (path_Dir ^^ 0) cur = root \<and> root \<notin> set (ancestors 0 cur)"
      by (simp add: insert_each_Nil)
    then show ?thesis by blast
  next
    case False
    from Suc.prems have "(path_Dir ^^ k) (path_Dir cur) = root"
      by (simp add: funpow_swap1)
    from Suc.IH[OF this Suc.prems(2), of "insert_album_path c cur b"]
    obtain n where n: "n \<le> k"
      "insert_album_paths_loop (insert_album_path c cur b) (path_Dir cur) root b
         = Some (insert_each (insert_album_path c cur b) (ancestors n (path_Dir cur)) b)"
      "(path_Dir ^^ n) (path_Dir cur) = root" "root \<notin> set (ancestors n (path_Dir cur))"
      by blast
    from False have "insert_album_paths_loop c cur root b
        = insert_album_paths_loop (insert_album_path c cur b) (path_Dir cur) root b"
      by (subst insert_album_paths_loop.simps) simp
    with n False have "Suc n \<le> Suc k \<and>
        insert_album_paths_loop c cur root b = Some (insert_each c (ancestors (Suc n) cur) b)
           \<and> (path_Dir ^^ Suc n) cur = root \<and> root \<notin> set (ancestors (Suc n) cur)"
      by (simp add: insert_each_Cons funpow_swap1)
    then show ?thesis by blast
  qed
qed

lemma ancestors_least_unique:
  assumes "(path_Dir ^^ n) p = r" "r \<notin> set (ancestors n p)"
      and "(path_Dir ^^ k) p = r" "r \<notin> set (ancestors k p)"
  shows "n = k"
proof (rule ccontr)
  assume "n \<noteq> k"
  then consider "n < k" | "k < n" by linarith
  then show False
  proof cases
    case 1
    with assms(1) have "r \<in> set (ancestors k p)" by (auto simp: set_ancestors)
    with assms(4) show False by simp
  next
    case 2
    with assms(3) have "r \<in> set (ancestors n p)" by (auto simp: set_ancestors)
    with assms(2) show False by simp
  qed
qed

section \<open>The claims about the containment probe\<close>

lemma probe_outcome_search:
  assumes "probe_outcome fs R cache = Some (ex, scanned)"
  obtains cache' where "probe_search fs cache [R] [] = Some (ex, cache', scanned)"
  using assms by (auto simp: probe_outcome_def)

text \<open>
  Claim C10. The loop of \<open>insert_album_paths(end_path, root, verdict)\<close> ends whenever
  walking up from the cleaned \<open>end_path\<close> with \<open>path.Dir\<close> reaches the cleaned \<open>root\<close>
  in \<open>k\<close> steps and none of the paths walked through up to there is \<open>.\<close>. It then returns
  after at most \<open>k\<close> insertions: one for each of the first \<open>n \<le> k\<close> paths of the walk.
\<close>

theorem insert_album_paths_terminates:
  assumes "(path_Dir ^^ k) (path_Clean end_path) = path_Clean root"
      and "''.'' \<notin> set (ancestors (Suc k) (path_Clean end_path))"
  shows "\<exists>n\<le>k. insert_album_paths cache end_path root contains_photo
           = Some (insert_each cache (ancestors n (path_Clean end_path)) contains_photo)"
proof -
  have "k \<in> {..<Suc k}" by simp
  with assms(1) have "path_Clean root \<in> set (ancestors (Suc k) (path_Clean end_path))"
    unfolding set_ancestors by (metis imageI)
  with assms(2) have "path_Clean root \<noteq> ''.''" by auto
  from insert_album_paths_loop_reaches[OF assms(1) this, of cache contains_photo]
  show ?thesis unfolding insert_album_paths_def by blast
qed

theorem insert_album_paths_terminates_witness:
  "(path_Dir ^^ 3) (path_Clean ''/R/x/y/z'') = path_Clean ''/R''
   \<and> ''.'' \<notin> set (ancestors (Suc 3) (path_Clean ''/R/x/y/z''))
   \<and> (\<exists>n\<le>3. insert_album_paths Map.empty ''/R/x/y/z'' ''/R'' True
           = Some (insert_each Map.empty (ancestors n (path_Clean ''/R/x/y/z'')) True))"
proof -
  have h1: "(path_Dir ^^ 3) (path_Clean ''/R/x/y/z'') = path_Clean ''/R''" by code_simp
  have h2: "''.'' \<notin> set (ancestors (Suc 3) (path_Clean ''/R/x/y/z''))" by code_simp
  from insert_album_paths_terminates[OF h1 h2] h1 h2 show ?thesis by blast
qed

text \<open>
  Claim C1, amended. A probe rooted at \<open>R\<close> (not yet in the cache, its cleaned form other
  than \<open>.\<close>) whose search leaves at the first supported image, found in directory \<open>D\<close>,
  \<open>k\<close> steps of \<open>path.Dir\<close> below \<open>R\<close>, returns true; \<open>D\<close> is the last directory it listed;
  and the verdicts it writes are true for the cleaned \<open>D\<close> and its ancestors strictly below
  \<open>R\<close>, and nothing else: the entry of \<open>R\<close> itself is left as it was. In the tree with one
  image at \<open>/R/x/y/z/img.jpg\<close> the entries written are those of \<open>/R/x/y/z\<close>, \<open>/R/x/y\<close>
  and \<open>/R/x\<close>.
\<close>

theorem probe_found_marks_below_root:
  assumes "album_contains_photo cache R = None"
      and "probe_outcome fs R cache = Some (FoundImage D, scanned)"
      and "(path_Dir ^^ k) (path_Clean D) = path_Clean R"
      and "path_Clean R \<notin> set (ancestors k (path_Clean D))"
      and "path_Clean R \<noteq> ''.''"
  shows "\<exists>cache'. directoryContainsPhotos fs R cache = Some (True, cache') \<and> last scanned = D \<and>
           (\<forall>p. album_contains_photo cache' p =
                  (if p \<in> set (ancestors k (path_Clean D)) then Some True
                   else album_contains_photo cache p))"
proof -
  from assms(2) obtain c1 where s: "probe_search fs cache [R] [] = Some (FoundImage D, c1, scanned)"
    by (rule probe_outcome_search)
  from probe_search_exit_aux[OF s]
  have alb: "\<forall>p. album_contains_photo c1 p = album_contains_photo cache p"
    and last: "last scanned = D" by simp_all
  from insert_album_paths_loop_reaches[OF assms(3) assms(5), of c1 True]
  obtain n where n: "insert_album_paths_loop c1 (path_Clean D) (path_Clean R) True
        = Some (insert_each c1 (ancestors n (path_Clean D)) True)"
      "(path_Dir ^^ n) (path_Clean D) = path_Clean R"
      "path_Clean R \<notin> set (ancestors n (path_Clean D))"
    by blast
  from ancestors_least_unique[OF n(2) n(3) assms(3) assms(4)] have "n = k" .
  with n(1) have ins: "insert_album_paths c1 D R True = Some (insert_each c1 (ancestors k (path_Clean D)) True)"
    by (simp add: insert_album_paths_def)
  from assms(1) s ins
  have "directoryContainsPhotos fs R cache = Some (True, insert_each c1 (ancestors k (path_Clean D)) True)"
    by (simp add: directoryContainsPhotos_def)
  moreover have "\<forall>p. album_contains_photo (insert_each c1 (ancestors k (path_Clean D)) True) p =
                  (if p \<in> set (ancestors k (path_Clean D)) then Some True
                   else album_contains_photo cache p)"
    using alb by (simp add: album_of_insert_each)
  ultimately show ?thesis using last by blast
qed

theorem probe_found_marks_below_root_witness:
  "album_contains_photo Map.empty ''/R'' = None
   \<and> probe_outcome example_fs ''/R'' Map.empty
       = Some (FoundImage ''/R/x/y/z'', [''/R'', ''/R/x'', ''/R/x/y'', ''/R/x/y2'', ''/R/x/y/z''])
   \<and> (path_Dir ^^ 3) (path_Clean ''/R/x/y/z'') = path_Clean ''/R''
   \<and> path_Clean ''/R'' \<notin> set (ancestors 3 (path_Clean ''/R/x/y/z''))
   \<and> path_Clean ''/R'' \<noteq> ''.''
   \<and> ancestors 3 (path_Clean ''/R/x/y/z'') = [''/R/x/y/z'', ''/R/x/y'', ''/R/x'']
   \<and> (\<exists>cache'. directoryContainsPhotos example_fs ''/R'' Map.empty = Some (True, cache') \<and>
         (\<forall>p. album_contains_photo cache' p =
                  (if p \<in> set (ancestors 3 (path_Clean ''/R/x/y/z'')) then Some True
                   else album_contains_photo Map.empty p)))"
proof -
  have h1: "album_contains_photo Map.empty ''/R'' = None" by (simp add: album_contains_photo_def)
  have h2: "probe_outcome example_fs ''/R'' Map.empty
       = Some (FoundImage ''/R/x/y/z'', [''/R'', ''/R/x'', ''/R/x/y'', ''/R/x/y2'', ''/R/x/y/z''])"
    by code_simp
  have h3: "(path_Dir ^^ 3) (path_Clean ''/R/x/y/z'') = path_Clean ''/R''" by code_simp
  have h4: "path_Clean ''/R'' \<notin> set (ancestors 3 (path_Clean ''/R/x/y/z''))" by code_simp
  have h5: "path_Clean ''/R'' \<noteq> ''.''" by code_simp
  have h6: "ancestors 3 (path_Clean ''/R/x/y/z'') = [''/R/x/y/z'', ''/R/x/y'', ''/R/x'']" by code_simp
  from probe_found_marks_below_root[OF h1 h2 h3 h4 h5] h1 h2 h3 h4 h5 h6 show ?thesis by blast
qed

text \<open>
  Claim C1 as stated fails on the root: after the probe of \<open>/R\<close> in the tree with one
  image at \<open>/R/x/y/z/img.jpg\<close>, the cache holds true for \<open>/R/x\<close>, \<open>/R/x/y\<close> and
  \<open>/R/x/y/z\<close>, and no verdict for \<open>/R\<close>.
\<close>

theorem probe_root_not_marked:
  "probe_verdicts example_fs ''/R'' Map.empty [''/R'', ''/R/x'', ''/R/x/y'', ''/R/x/y/z'']
     = Some (True, [None, Some True, Some True, Some True])"
  by code_simp

text \<open>
  Claim C8. A probe whose search empties its queue without classifying a file as a
  supported image returns false, and every directory it took from the queue, its root
  among them, is recorded as false in the cache.
\<close>

theorem probe_exhausted_marks_false:
  assumes "album_contains_photo cache R = None"
      and "probe_outcome fs R cache = Some (QueueEmpty, scanned)"
  shows "\<exists>cache'. directoryContainsPhotos fs R cache = Some (False, cache') \<and> R \<in> set scanned \<and>
           (\<forall>d\<in>set scanned. album_contains_photo cache' d = Some False)"
proof -
  from assms(2) obtain c1 where s: "probe_search fs cache [R] [] = Some (QueueEmpty, c1, scanned)"
    by (rule probe_outcome_search)
  from probe_search_exit_aux[OF s] have c1: "c1 = cache" and R: "R \<in> set scanned" by simp_all
  from assms(1) s have "directoryContainsPhotos fs R cache = Some (False, mark_scanned c1 scanned)"
    by (simp add: directoryContainsPhotos_def)
  moreover have "\<forall>d\<in>set scanned. album_contains_photo (mark_scanned c1 scanned) d = Some False"
    by (simp add: mark_scanned_insert_each album_of_insert_each)
  ultimately show ?thesis using R by blast
qed

theorem probe_exhausted_marks_false_witness:
  "album_contains_photo Map.empty ''/E'' = None
   \<and> probe_outcome example_fs ''/E'' Map.empty = Some (QueueEmpty, [''/E'', ''/E/a''])
   \<and> (\<exists>cache'. directoryContainsPhotos example_fs ''/E'' Map.empty = Some (False, cache')
         \<and> ''/E'' \<in> set [''/E'', ''/E/a'']
         \<and> (\<forall>d\<in>set [''/E'', ''/E/a'']. album_contains_photo cache' d = Some False))"
proof -
  have h1: "album_contains_photo Map.empty ''/E'' = None" by (simp add: album_contains_photo_def)
  have h2: "probe_outcome example_fs ''/E'' Map.empty = Some (QueueEmpty, [''/E'', ''/E/a''])"
    by code_simp
  from probe_exhausted_marks_false[OF h1 h2] h1 h2 show ?thesis by blast
qed

text \<open>
  Claim C9. A probe in which the listing of a directory \<open>d\<close> taken from the queue fails
  returns false at once (\<open>d\<close> is the last directory it took) and leaves the cache as it
  was: no verdict is written for \<open>d\<close> or for a directory listed before it.
\<close>

theorem probe_listing_failure_writes_nothing:
  assumes "album_contains_photo cache R = None"
      and "probe_outcome fs R cache = Some (ListingFailed d, scanned)"
  shows "directoryContainsPhotos fs R cache = Some (False, cache) \<and> ReadDir fs d = None
           \<and> last scanned = d"
proof -
  from assms(2) obtain c1 where s: "probe_search fs cache [R] [] = Some (ListingFailed d, c1, scanned)"
    by (rule probe_outcome_search)
  from probe_search_exit_aux[OF s] have c1: "c1 = cache" and rest: "ReadDir fs d = None" "last scanned = d"
    by simp_all
  from assms(1) s c1 have "directoryContainsPhotos fs R cache = Some (False, cache)"
    by (simp add: directoryContainsPhotos_def)
  with rest show ?thesis by simp
qed

theorem probe_listing_failure_writes_nothing_witness:
  "album_contains_photo Map.empty ''/F'' = None
   \<and> probe_outcome example_fs ''/F'' Map.empty = Some (ListingFailed ''/F/b'', [''/F'', ''/F/b''])
   \<and> directoryContainsPhotos example_fs ''/F'' Map.empty = Some (False, Map.empty)"
proof -
  have h1: "album_contains_photo Map.empty ''/F'' = None" by (simp add: album_contains_photo_def)
  have h2: "probe_outcome example_fs ''/F'' Map.empty = Some (ListingFailed ''/F/b'', [''/F'', ''/F/b''])"
    by code_simp
  from probe_listing_failure_writes_nothing[OF h1 h2] h1 h2 show ?thesis by blast
qed

section \<open>Induction over the loops of the scan\<close>

lemma scan_loop_induct [consumes 1, case_names Empty ReadDirFail AlbumFail PhotoFail Continue]:
  assumes run: "scan_loop env fs usr q st = Some r"
    and Empty: "\<And>st. P [] st (None, st)"
    and ReadDirFail: "\<And>albumInfo rest st.
          ReadDir fs (info_path albumInfo) = None \<Longrightarrow>
          P (albumInfo # rest) st
            (Some ReadDirError,
             st\<lparr>album_paths_scanned := album_paths_scanned st @ [info_path albumInfo]\<rparr>)"
    and AlbumFail: "\<And>albumInfo rest st dirContent e.
          ReadDir fs (info_path albumInfo) = Some dirContent \<Longrightarrow>
          album_transaction env (st_database st) usr (info_path albumInfo) (parentId albumInfo) = Inl e \<Longrightarrow>
          P (albumInfo # rest) st
            (Some e, st\<lparr>album_paths_scanned := album_paths_scanned st @ [info_path albumInfo]\<rparr>)"
    and PhotoFail: "\<And>albumInfo rest st dirContent db' albumId e st2.
          ReadDir fs (info_path albumInfo) = Some dirContent \<Longrightarrow>
          album_transaction env (st_database st) usr (info_path albumInfo) (parentId albumInfo)
            = Inr (db', albumId) \<Longrightarrow>
          scan_photos env fs (info_path albumInfo) albumId dirContent
            (st\<lparr>album_paths_scanned := album_paths_scanned st @ [info_path albumInfo],
                st_database := db'\<rparr>) = (Some e, st2) \<Longrightarrow>
          P (albumInfo # rest) st (Some e, st2)"
    and Continue: "\<And>albumInfo rest st dirContent db' albumId st2 cache' q' r.
          ReadDir fs (info_path albumInfo) = Some dirContent \<Longrightarrow>
          album_transaction env (st_database st) usr (info_path albumInfo) (parentId albumInfo)
            = Inr (db', albumId) \<Longrightarrow>
          scan_photos env fs (info_path albumInfo) albumId dirContent
            (st\<lparr>album_paths_scanned := album_paths_scanned st @ [info_path albumInfo],
                st_database := db'\<rparr>) = (None, st2) \<Longrightarrow>
          scan_subalbums fs (info_path albumInfo) albumId dirContent (st_cache st2) rest
            = Some (cache', q') \<Longrightarrow>
          P q' (st2\<lparr>st_cache := cache'\<rparr>) r \<Longrightarrow>
          P (albumInfo # rest) st r"
  shows "P q st r"
proof -
  have "scan_loop env' fs' usr' q st = Some r \<Longrightarrow> env' = env \<Longrightarrow> fs' = fs \<Longrightarrow> usr' = usr \<Longrightarrow> P q st r"
    for env' fs' usr'
  proof (induction env' fs' usr' q st r rule: scan_loop.raw_induct[rotated 1, consumes 1])
    case (1 loop env' fs' usr' scanQueue st r)
    note eqs = 1(3) 1(4) 1(5)
    show ?case
    proof (cases scanQueue)
      case Nil
      with 1(2) have "r = (None, st)" by simp
      with Nil Empty show ?thesis by simp
    next
      case (Cons albumInfo rest)
      let ?st1 = "st\<lparr>album_paths_scanned := album_paths_scanned st @ [info_path albumInfo]\<rparr>"
      show ?thesis
      proof (cases "ReadDir fs (info_path albumInfo)")
        case None
        with 1(2) Cons eqs have "r = (Some ReadDirError, ?st1)" by (simp add: Let_def)
        with ReadDirFail[OF None] Cons show ?thesis by simp
      next
        case (Some dirContent)
        show ?thesis
        proof (cases "album_transaction env (st_database st) usr (info_path albumInfo) (parentId albumInfo)")
          case (Inl e)
          with 1(2) Cons eqs Some have "r = (Some e, ?st1)" by (simp add: Let_def)
          with AlbumFail[OF Some Inl] Cons show ?thesis by simp
        next
          case (Inr pr)
          obtain db' albumId where pr: "pr = (db', albumId)" by (cases pr)
          obtain e st2 where ph: "scan_photos env fs (info_path albumInfo) albumId dirContent
              (st\<lparr>album_paths_scanned := album_paths_scanned st @ [info_path albumInfo],
                  st_database := db'\<rparr>) = (e, st2)" by force
          show ?thesis
          proof (cases e)
            case (Some err)
            with 1(2) Cons eqs \<open>ReadDir fs (info_path albumInfo) = Some dirContent\<close> Inr pr ph
            have "r = (Some err, st2)" by (simp add: Let_def)
            with PhotoFail[OF \<open>ReadDir fs (info_path albumInfo) = Some dirContent\<close> Inr[unfolded pr] ph[unfolded Some]] Cons
            show ?thesis by simp
          next
            case None
            show ?thesis
            proof (cases "scan_subalbums fs (info_path albumInfo) albumId dirContent (st_cache st2) rest")
              case sub: None
              with 1(2) Cons eqs \<open>ReadDir fs (info_path albumInfo) = Some dirContent\<close> Inr pr ph None
              have False by (simp add: Let_def)
              then show ?thesis ..
            next
              case sub: (Some cq)
              obtain cache' q' where cq: "cq = (cache', q')" by (cases cq)
              from 1(2) Cons eqs \<open>ReadDir fs (info_path albumInfo) = Some dirContent\<close> Inr pr ph None sub cq
              have "loop env fs usr q' (st2\<lparr>st_cache := cache'\<rparr>) = Some r" by (simp add: Let_def)
              from 1(1)[OF this] have "P q' (st2\<lparr>st_cache := cache'\<rparr>) r" by simp
              from Continue[OF \<open>ReadDir fs (info_path albumInfo) = Some dirContent\<close> Inr[unfolded pr] ph[unfolded None] sub[unfolded cq] this] Cons
              show ?thesis by simp
            qed
          qed
        qed
      qed
    qed
  qed
  with run show ?thesis by simp
qed

lemma scan_photos_induct [consumes 1, case_names Nil Dir NotImage BeginFail ProcessFail Processed]:
  assumes run: "scan_photos env fs albumPath albumId items st = r"
    and Nil: "\<And>st. P [] st (None, st)"
    and Dir: "\<And>item rest st r. IsDir item \<Longrightarrow> P rest st r \<Longrightarrow> P (item # rest) st r"
    and NotImage: "\<And>item rest st r. \<not> IsDir item \<Longrightarrow>
          isPathImage fs (path_Join albumPath (Name item)) (st_cache st) = (False, st_cache st) \<Longrightarrow>
          P rest st r \<Longrightarrow> P (item # rest) st r"
    and BeginFail: "\<And>item rest st cache'. \<not> IsDir item \<Longrightarrow>
          isPathImage fs (path_Join albumPath (Name item)) (st_cache st) = (True, cache') \<Longrightarrow>
          db_error env (Begin_photo (path_Join albumPath (Name item))) \<Longrightarrow>
          P (item # rest) st (Some PhotoBeginError, st\<lparr>st_cache := cache'\<rparr>)"
    and ProcessFail: "\<And>item rest st cache' content_type. \<not> IsDir item \<Longrightarrow>
          isPathImage fs (path_Join albumPath (Name item)) (st_cache st) = (True, cache') \<Longrightarrow>
          get_photo_type cache' (path_Join albumPath (Name item)) = Some content_type \<Longrightarrow>
          ProcessImage env (st_database st) (path_Join albumPath (Name item)) albumId content_type = None \<Longrightarrow>
          P (item # rest) st
            (Some ProcessError,
             st\<lparr>st_cache := cache',
                process_calls := process_calls st @
                  [(st_database st, path_Join albumPath (Name item), albumId, content_type)]\<rparr>)"
    and Processed: "\<And>item rest st cache' content_type tx' r. \<not> IsDir item \<Longrightarrow>
          isPathImage fs (path_Join albumPath (Name item)) (st_cache st) = (True, cache') \<Longrightarrow>
          get_photo_type cache' (path_Join albumPath (Name item)) = Some content_type \<Longrightarrow>
          ProcessImage env (st_database st) (path_Join albumPath (Name item)) albumId content_type = Some tx' \<Longrightarrow>
          P rest
            (if db_error env (Commit_photo (path_Join albumPath (Name item)))
             then st\<lparr>st_cache := cache',
                     process_calls := process_calls st @
                       [(st_database st, path_Join albumPath (Name item), albumId, content_type)]\<rparr>
             else st\<lparr>st_cache := cache',
                     process_calls := process_calls st @
                       [(st_database st, path_Join albumPath (Name item), albumId, content_type)],
                     st_database := tx'\<rparr>) r \<Longrightarrow>
          P (item # rest) st r"
  shows "P items st r"
  using run
proof (induction items arbitrary: st r)
  case Nil
  then show ?case using assms(2) by auto
next
  case (Cons item rest)
  let ?p = "path_Join albumPath (Name item)"
  show ?case
  proof (cases "IsDir item")
    case True
    with Cons.prems have "scan_photos env fs albumPath albumId rest st = r" by (simp add: Let_def)
    from Dir[OF True Cons.IH[OF this]] show ?thesis .
  next
    case False
    obtain b cache' where img: "isPathImage fs ?p (st_cache st) = (b, cache')" by force
    show ?thesis
    proof (cases b)
      case b: False
      with img have c: "cache' = st_cache st" by (simp add: isPathImage_False)
      have "st\<lparr>st_cache := st_cache st\<rparr> = st" by simp
      with Cons.prems False img b c
      have "scan_photos env fs albumPath albumId rest st = r" by (simp add: Let_def)
      moreover from img b c have "isPathImage fs ?p (st_cache st) = (False, st_cache st)" by simp
      ultimately show ?thesis using NotImage[OF False _ Cons.IH] by blast
    next
      case b: True
      with img have img': "isPathImage fs ?p (st_cache st) = (True, cache')" by simp
      from isPathImage_True[OF img']
      obtain content_type where ct: "get_photo_type cache' ?p = Some content_type" by blast
      show ?thesis
      proof (cases "db_error env (Begin_photo ?p)")
        case True
        with Cons.prems False img b have "r = (Some PhotoBeginError, st\<lparr>st_cache := cache'\<rparr>)"
          by (simp add: Let_def)
        with BeginFail[OF False img' True] show ?thesis by simp
      next
        case nb: False
        show ?thesis
        proof (cases "ProcessImage env (st_database st) ?p albumId content_type")
          case None
          with Cons.prems False img b nb ct
          have "r = (Some ProcessError,
             st\<lparr>st_cache := cache',
                process_calls := process_calls st @ [(st_database st, ?p, albumId, content_type)]\<rparr>)"
            by (simp add: Let_def)
          with ProcessFail[OF False img' ct None] show ?thesis by simp
        next
          case (Some tx')
          let ?st' = "st\<lparr>st_cache := cache',
                process_calls := process_calls st @ [(st_database st, ?p, albumId, content_type)]\<rparr>"
          from Cons.prems False img b nb ct Some
          have "scan_photos env fs albumPath albumId rest
                  (if db_error env (Commit_photo ?p) then ?st' else ?st'\<lparr>st_database := tx'\<rparr>) = r"
            by (simp add: Let_def)
          from Cons.IH[OF this]
          have "P rest (if db_error env (Commit_photo ?p) then ?st' else ?st'\<lparr>st_database := tx'\<rparr>) r" .
          from Processed[OF False img' ct Some this] show ?thesis .
        qed
      qed
    qed
  qed
qed

section \<open>The cache stays consistent with the file system\<close>







section \<open>Invariants of the scan\<close>



lemma scan_photos_no_missing_type:
  "scan_photos env fs ap aid items st = r \<Longrightarrow> fst r \<noteq> Some ContentTypeMissing"
  by (induction items st r rule: scan_photos_induct) simp_all

lemma album_transaction_errors:
  "album_transaction env db usr ap parent = Inl e \<Longrightarrow> e \<noteq> ProcessError \<and> e \<noteq> ContentTypeMissing"
  by (auto simp: album_transaction_def Let_def split: if_splits option.splits)


lemma scan_loop_no_missing_type:
  "scan_loop env fs usr q st = Some r \<Longrightarrow> fst r \<noteq> Some ContentTypeMissing"
proof (induction q st r rule: scan_loop_induct)
  case (AlbumFail albumInfo rest st dirContent e)
  then show ?case by (simp add: album_transaction_errors)
next
  case (PhotoFail albumInfo rest st dirContent db' albumId e st2)
  from scan_photos_no_missing_type[OF PhotoFail(3)] show ?case by simp
qed simp_all


section \<open>The claims about classification and the scan\<close>


lemma scan_cases:
  assumes "scan env fs db usr = Some r"
  obtains e st where
    "scan_loop env fs usr [\<lparr>info_path = RootPath usr, parentId = None\<rparr>]
       \<lparr>st_database = db, st_cache = Map.empty, album_paths_scanned = [], process_calls = []\<rparr>
     = Some (e, st)"
    "scan_failure r = e" "final_state r = st" "cleanup r = None \<longleftrightarrow> e \<noteq> None"
proof -
  from assms obtain e st where loop:
    "scan_loop env fs usr [\<lparr>info_path = RootPath usr, parentId = None\<rparr>]
       \<lparr>st_database = db, st_cache = Map.empty, album_paths_scanned = [], process_calls = []\<rparr>
     = Some (e, st)"
    by (auto simp: scan_def split: option.splits)
  with assms have "scan_failure r = e" "final_state r = st" "cleanup r = None \<longleftrightarrow> e \<noteq> None"
    by (cases e; auto simp: scan_def)+
  with loop show ?thesis by (rule that)
qed

text \<open>
  Claim C5. When \<open>isPathImage\<close> returns true for a path, the cache holds a content type
  for that path afterwards. So the loop over the files never leaves through the branch
  \<open>Content type not found from cache\<close>, and no scan ends there.
\<close>

theorem content_type_always_cached:
  "(isPathImage fs p cache = (True, cache') \<longrightarrow> get_photo_type cache' p \<noteq> None)
   \<and> fst (scan_photos env fs albumPath albumId items st) \<noteq> Some ContentTypeMissing
   \<and> (scan env fs db usr = Some r \<longrightarrow> scan_failure r \<noteq> Some ContentTypeMissing)"
proof (intro conjI impI)
  assume "isPathImage fs p cache = (True, cache')"
  from isPathImage_True[OF this] show "get_photo_type cache' p \<noteq> None" by auto
next
  show "fst (scan_photos env fs albumPath albumId items st) \<noteq> Some ContentTypeMissing"
    by (rule scan_photos_no_missing_type) simp
next
  assume "scan env fs db usr = Some r"
  then obtain e st where
    "scan_loop env fs usr [\<lparr>info_path = RootPath usr, parentId = None\<rparr>]
       \<lparr>st_database = db, st_cache = Map.empty, album_paths_scanned = [], process_calls = []\<rparr>
     = Some (e, st)" "scan_failure r = e"
    by (rule scan_cases)
  with scan_loop_no_missing_type[OF this(1)] show "scan_failure r \<noteq> Some ContentTypeMissing" by simp
qed

theorem content_type_always_cached_witness:
  "fst (isPathImage photos_fs ''/photos/a.jpg'' Map.empty) = True
   \<and> get_photo_type (snd (isPathImage photos_fs ''/photos/a.jpg'' Map.empty)) ''/photos/a.jpg'' \<noteq> None
   \<and> (\<exists>r. scan (example_env '''') photos_fs empty_db alice = Some r
          \<and> scan_failure r \<noteq> Some ContentTypeMissing)"
proof -
  have h1: "fst (isPathImage photos_fs ''/photos/a.jpg'' Map.empty) = True" by code_simp
  then have h1': "isPathImage photos_fs ''/photos/a.jpg'' Map.empty
      = (True, snd (isPathImage photos_fs ''/photos/a.jpg'' Map.empty))"
    by (metis prod.collapse)
  have "map_option scan_failure (scan (example_env '''') photos_fs empty_db alice) = Some None"
    by code_simp
  then obtain r where h2: "scan (example_env '''') photos_fs empty_db alice = Some r" by auto
  from content_type_always_cached[where fs = photos_fs and p = "''/photos/a.jpg''"
      and cache = Map.empty and cache' = "snd (isPathImage photos_fs ''/photos/a.jpg'' Map.empty)"
      and env = "example_env ''''" and db = empty_db and usr = alice and r = r]
    h1 h1' h2
  show ?thesis by blast
qed

text \<open>
  Claim C6. For a path that is not in the cache and whose open or header read fails,
  \<open>isPathImage\<close> returns false and leaves the cache unchanged; a later call for the same
  path is decided by the file system as it is then, not by a cached verdict.
\<close>

theorem read_failure_not_cached:
  assumes "get_photo_type cache p = None"
      and "sniff fs p = OpenError \<or> sniff fs p = ReadError"
  shows "isPathImage fs p cache = (False, cache)
         \<and> (\<forall>fs'. fst (isPathImage fs' p (snd (isPathImage fs p cache)))
                    = (\<exists>mime\<in>set SupportedMimetypes. sniff fs' p = ImageType mime))"
proof -
  from assms have r: "isPathImage fs p cache = (False, cache)"
    by (auto simp: isPathImage_def)
  have "fst (isPathImage fs' p cache) = (\<exists>mime\<in>set SupportedMimetypes. sniff fs' p = ImageType mime)"
    for fs'
    using assms(1) by (cases "sniff fs' p") (auto simp: isPathImage_def match_supported_iff)
  with r show ?thesis by simp
qed

theorem read_failure_not_cached_witness:
  "get_photo_type Map.empty ''/photos/gone.jpg'' = None
   \<and> (sniff photos_fs ''/photos/gone.jpg'' = OpenError \<or> sniff photos_fs ''/photos/gone.jpg'' = ReadError)
   \<and> isPathImage photos_fs ''/photos/gone.jpg'' Map.empty = (False, Map.empty)"
proof -
  have h1: "get_photo_type Map.empty ''/photos/gone.jpg'' = None" by (simp add: get_photo_type_def)
  have h2: "sniff photos_fs ''/photos/gone.jpg'' = OpenError \<or> sniff photos_fs ''/photos/gone.jpg'' = ReadError"
    by (simp add: photos_fs_def)
  from read_failure_not_cached[OF h1 h2] h1 h2 show ?thesis by blast
qed





section \<open>The claims about the album rows\<close>

lemma scan_photos_scanned:
  "scan_photos env fs ap aid items st = r \<Longrightarrow> album_paths_scanned (snd r) = album_paths_scanned st"
  by (induction items st r rule: scan_photos_induct) (simp_all split: if_splits)

lemma scan_loop_scanned:
  "scan_loop env fs usr q st = Some r \<Longrightarrow> q \<noteq> [] \<or> album_paths_scanned st \<noteq> [] \<Longrightarrow>
     album_paths_scanned (snd r) \<noteq> []"
proof (induction q st r rule: scan_loop_induct)
  case (PhotoFail albumInfo rest st dirContent db' albumId e st2)
  from scan_photos_scanned[OF PhotoFail(3)] show ?case by simp
next
  case (Continue albumInfo rest st dirContent db' albumId st2 cache' q' r)
  from scan_photos_scanned[OF Continue(3)] have "album_paths_scanned st2 \<noteq> []" by simp
  with Continue(5) show ?case by simp
qed simp_all

lemma filter_by_selected_ids:
  assumes "distinct (map album_id albums)"
  shows "filter (\<lambda>a. album_id a \<notin> set (map album_id (filter stale albums))) albums
           = filter (\<lambda>a. \<not> stale a) albums"
proof (rule filter_cong[OF refl])
  fix a assume a: "a \<in> set albums"
  from assms have inj: "inj_on album_id (set albums)" by (simp add: distinct_map)
  have "album_id a \<in> set (map album_id (filter stale albums)) \<longleftrightarrow> stale a"
  proof
    assume "album_id a \<in> set (map album_id (filter stale albums))"
    then obtain a' where a': "a' \<in> set albums" "stale a'" "album_id a' = album_id a" by auto
    with inj a have "a' = a" by (auto dest: inj_onD)
    with a' show "stale a" by simp
  next
    assume "stale a"
    with a show "album_id a \<in> set (map album_id (filter stale albums))" by auto
  qed
  then show "(album_id a \<notin> set (map album_id (filter stale albums))) = (\<not> stale a)" by simp
qed

lemma cleanupCache_database:
  assumes "scanned_albums \<noteq> []" and "\<not> db_error env Select_unused" and "\<not> db_error env Delete_unused"
      and "distinct (map album_id (album_table db))"
  shows "cleaned_database (cleanupCache env db scanned_albums usr)
           = db\<lparr>album_table :=
                  filter (\<lambda>a. \<not> (owner_id a = UserID usr \<and> path a \<notin> set scanned_albums))
                    (album_table db)\<rparr>"
proof -
  let ?stale = "\<lambda>a. owner_id a = UserID usr \<and> path a \<notin> set scanned_albums"
  let ?ids = "map album_id (filter ?stale (album_table db))"
  show ?thesis
  proof (cases "?ids = []")
    case True
    then have "filter ?stale (album_table db) = []" by simp
    then have "\<forall>a\<in>set (album_table db). \<not> ?stale a" by (simp add: filter_empty_conv)
    then have "filter (\<lambda>a. \<not> ?stale a) (album_table db) = album_table db"
      by (simp add: filter_id_conv)
    with True assms(1,2) show ?thesis
      by (simp add: cleanupCache_def Let_def split: prod.splits)
  next
    case False
    with assms(1,2,3) have "cleaned_database (cleanupCache env db scanned_albums usr)
        = db\<lparr>album_table := filter (\<lambda>a. album_id a \<notin> set ?ids) (album_table db)\<rparr>"
      by (simp add: cleanupCache_def Let_def split: prod.splits)
    with filter_by_selected_ids[OF assms(4), of ?stale] show ?thesis by simp
  qed
qed

text \<open>
  Claim C3. After a scan that ran to the end of its queue, with \<open>V\<close> the paths it
  visited, \<open>cleanupCache\<close> is called and, when its two statements succeed on a table with
  distinct album identifiers, the album rows that remain are exactly the rows that do
  not belong to the scanned user with a path outside \<open>V\<close>: these are deleted, all other
  rows are kept in place. The outcome of \<open>os.RemoveAll\<close> has no part in it: the same
  rows are deleted whatever \<open>remove_error\<close> says about the cache folders.
\<close>

theorem reconciliation_deletes_unvisited_albums:
  assumes "scan env fs db usr = Some r" and "scan_failure r = None"
      and "\<not> db_error env Select_unused" and "\<not> db_error env Delete_unused"
      and "distinct (map album_id (album_table (st_database (final_state r))))"
  shows "\<exists>result. cleanup r = Some result
           \<and> album_table (cleaned_database result)
               = filter (\<lambda>a. \<not> (owner_id a = UserID usr
                                  \<and> path a \<notin> set (album_paths_scanned (final_state r))))
                   (album_table (st_database (final_state r)))
           \<and> cleaned_database (cleanupCache (env\<lparr>RemoveAll_error := remove_error\<rparr>)
                 (st_database (final_state r)) (album_paths_scanned (final_state r)) usr)
               = cleaned_database result"
proof -
  from assms(1) obtain e st where loop:
    "scan_loop env fs usr [\<lparr>info_path = RootPath usr, parentId = None\<rparr>]
       \<lparr>st_database = db, st_cache = Map.empty, album_paths_scanned = [], process_calls = []\<rparr>
     = Some (e, st)" and r: "scan_failure r = e" "final_state r = st"
    by (rule scan_cases)
  from scan_loop_scanned[OF loop] have V: "album_paths_scanned st \<noteq> []" by simp
  from assms(1,2) loop r
  have c: "cleanup r = Some (cleanupCache env (st_database st) (album_paths_scanned st) usr)"
    by (auto simp: scan_def)
  from assms(5) r have d: "distinct (map album_id (album_table (st_database st)))" by simp
  note db = cleanupCache_database[OF V _ _ d]
  from db[of env usr] assms(3,4)
  have 1: "cleaned_database (cleanupCache env (st_database st) (album_paths_scanned st) usr)
      = (st_database st)\<lparr>album_table :=
           filter (\<lambda>a. \<not> (owner_id a = UserID usr \<and> path a \<notin> set (album_paths_scanned st)))
             (album_table (st_database st))\<rparr>" by simp
  from db[of "env\<lparr>RemoveAll_error := remove_error\<rparr>" usr] assms(3,4)
  have 2: "cleaned_database (cleanupCache (env\<lparr>RemoveAll_error := remove_error\<rparr>)
             (st_database st) (album_paths_scanned st) usr)
      = (st_database st)\<lparr>album_table :=
           filter (\<lambda>a. \<not> (owner_id a = UserID usr \<and> path a \<notin> set (album_paths_scanned st)))
             (album_table (st_database st))\<rparr>" by simp
  from c 1 2 r show ?thesis by simp
qed

theorem reconciliation_deletes_unvisited_albums_witness:
  "\<exists>r result. scan (example_env '''') photos_fs old_db alice = Some r \<and> scan_failure r = None
     \<and> \<not> db_error (example_env '''') Select_unused \<and> \<not> db_error (example_env '''') Delete_unused
     \<and> distinct (map album_id (album_table (st_database (final_state r))))
     \<and> RemoveAll_error (example_env '''') ''image-cache/1''
     \<and> cleanup r = Some result
     \<and> album_table (cleaned_database result)
          = filter (\<lambda>a. \<not> (owner_id a = UserID alice
                             \<and> path a \<notin> set (album_paths_scanned (final_state r))))
              (album_table (st_database (final_state r)))
     \<and> map (\<lambda>a. (album_id a, owner_id a, path a)) (album_table (st_database (final_state r)))
          = [(1, 1, ''/photos/old''), (2, 2, ''/photos/old''), (3, 1, ''/photos''),
             (4, 1, ''/photos/trip'')]
     \<and> map (\<lambda>a. (album_id a, owner_id a, path a)) (album_table (cleaned_database result))
          = [(2, 2, ''/photos/old''), (3, 1, ''/photos''), (4, 1, ''/photos/trip'')]"
proof -
  have "map_option (\<lambda>r. (scan_failure r,
            map (\<lambda>a. (album_id a, owner_id a, path a)) (album_table (st_database (final_state r))),
            map_option (\<lambda>result. map (\<lambda>a. (album_id a, owner_id a, path a))
                          (album_table (cleaned_database result))) (cleanup r)))
          (scan (example_env '''') photos_fs old_db alice)
        = Some (None,
            [(1, 1, ''/photos/old''), (2, 2, ''/photos/old''), (3, 1, ''/photos''),
             (4, 1, ''/photos/trip'')],
            Some [(2, 2, ''/photos/old''), (3, 1, ''/photos''), (4, 1, ''/photos/trip'')])"
    by code_simp
  then obtain r result where h1: "scan (example_env '''') photos_fs old_db alice = Some r"
    and h2: "scan_failure r = None"
    and before: "map (\<lambda>a. (album_id a, owner_id a, path a)) (album_table (st_database (final_state r)))
          = [(1, 1, ''/photos/old''), (2, 2, ''/photos/old''), (3, 1, ''/photos''),
             (4, 1, ''/photos/trip'')]"
    and res: "cleanup r = Some result"
    and after: "map (\<lambda>a. (album_id a, owner_id a, path a)) (album_table (cleaned_database result))
          = [(2, 2, ''/photos/old''), (3, 1, ''/photos''), (4, 1, ''/photos/trip'')]"
    by auto
  from before have "map fst (map (\<lambda>a. (album_id a, owner_id a, path a))
      (album_table (st_database (final_state r)))) = [1, 2, 3, 4]" by simp
  then have ids: "map album_id (album_table (st_database (final_state r))) = [1, 2, 3, 4]"
    by (simp add: comp_def)
  have h3: "\<not> db_error (example_env '''') Select_unused" by (simp add: example_env_def)
  have h4: "\<not> db_error (example_env '''') Delete_unused" by (simp add: example_env_def)
  from ids have h5: "distinct (map album_id (album_table (st_database (final_state r))))" by simp
  have h6: "RemoveAll_error (example_env '''') ''image-cache/1''" by (simp add: example_env_def)
  from reconciliation_deletes_unvisited_albums[OF h1 h2 h3 h4 h5] res
  have "album_table (cleaned_database result)
          = filter (\<lambda>a. \<not> (owner_id a = UserID alice
                             \<and> path a \<notin> set (album_paths_scanned (final_state r))))
              (album_table (st_database (final_state r)))" by auto
  with h1 h2 h3 h4 h5 h6 res before after show ?thesis
    by (intro exI[of _ r] exI[of _ result] conjI)
qed

text \<open>
  Claim C2 fails on the code. The album identifier is read back with
  \<open>SELECT album_id FROM album WHERE path = ?\<close>, keyed by the path alone. When bob's root
  \<open>/photos\<close> is scanned in a database that already holds alice's albums 1 and 2 for the
  same paths, bob's albums 3 and 4 are inserted, and the identifiers read back and
  handed to \<open>ProcessImage\<close> with bob's photos are 1 and 2, alice's albums.
\<close>

theorem album_id_read_back_by_path_only:
  "scan_summary (scan (example_env '''') photos_fs alice_db bob)
     = Some (None, [''/photos'', ''/photos/trip''],
             [(''/photos/a.jpg'', 1, ''image/jpeg''), (''/photos/trip/b.png'', 2, ''image/png'')],
             [(1, 1, ''/photos''), (2, 1, ''/photos/trip''), (3, 2, ''/photos''),
              (4, 2, ''/photos/trip'')],
             [(''/photos/a.jpg'', 1, ''image/jpeg''), (''/photos/trip/b.png'', 2, ''image/png''),
              (''/photos/a.jpg'', 1, ''image/jpeg''), (''/photos/trip/b.png'', 2, ''image/png'')],
             True)"
  by code_simp

end
